theory Spec2Isabelle
  imports Main
begin

section \<open>The trampoline client of \<^verbatim>\<open>src/desktop-trampoline.c\<close>\<close>

text \<open>
  A C string is represented by the bytes before its terminating zero byte, so the
  strings of \<open>argv\<close> and \<open>envp\<close> hold no zero byte; \<open>strlen\<close> is \<open>length\<close>. Raw
  buffers (stdin chunks, received payloads) are byte lists that may hold any byte.
  \<open>size_t\<close> counters are \<open>nat\<close>: they count bytes really transferred and do not
  reach \<open>2 ^ 64\<close>.
\<close>

subsection \<open>Constants and the allow-list\<close>

definition BUFFER_LENGTH :: nat where
  "BUFFER_LENGTH = 4096"

definition MAXIMUM_NUMBER_LENGTH :: nat where
  "MAXIMUM_NUMBER_LENGTH = 33"

definition NUMBER_OF_VALID_ENV_VARS :: nat where
  "NUMBER_OF_VALID_ENV_VARS = 4"

definition sValidEnvVars :: "string list" where
  "sValidEnvVars =
     [''DESKTOP_TRAMPOLINE_IDENTIFIER'',
      ''DESKTOP_TRAMPOLINE_TOKEN'',
      ''DESKTOP_USERNAME'',
      ''DESKTOP_ENDPOINT'']"

definition NUL :: char where
  "NUL = CHR 0x00"

subsection \<open>The C library functions the client calls\<close>

definition strlen :: "string \<Rightarrow> nat" where
  "strlen s = length s"

text \<open>
  \<open>strncmp a b n\<close> compares at most \<open>n\<close> characters and stops at the end of either
  string, where the terminating zero byte is smaller than every other character.
\<close>

fun strncmp :: "string \<Rightarrow> string \<Rightarrow> nat \<Rightarrow> int" where
  "strncmp a b 0 = 0"
| "strncmp [] [] (Suc n) = 0"
| "strncmp [] (y # ys) (Suc n) = - int (of_char y)"
| "strncmp (x # xs) [] (Suc n) = int (of_char x)"
| "strncmp (x # xs) (y # ys) (Suc n) =
     (if x = y then strncmp xs ys n else int (of_char x) - int (of_char y))"

text \<open>\<open>getenv\<close> looks the name up in the environment block the process was started with.\<close>

fun getenv :: "string \<Rightarrow> string list \<Rightarrow> string option" where
  "getenv name [] = None"
| "getenv name (e # es) =
     (if take (length name) e = name \<and> length name < length e \<and> e ! length name = CHR ''=''
      then Some (drop (Suc (length name)) e)
      else getenv name es)"

definition isspace :: "char \<Rightarrow> bool" where
  "isspace c = (c \<in> set [CHR '' '', CHR 0x09, CHR 0x0A, CHR 0x0B, CHR 0x0C, CHR 0x0D])"

definition isdigit :: "char \<Rightarrow> bool" where
  "isdigit c = (c \<in> set ''0123456789'')"

fun atoi_digits :: "string \<Rightarrow> int \<Rightarrow> int" where
  "atoi_digits [] acc = acc"
| "atoi_digits (c # cs) acc =
     (if isdigit c then atoi_digits cs (10 * acc + (int (of_char c) - 48)) else acc)"

text \<open>
  \<open>atoi\<close>: leading white space, an optional sign, then the longest run of digits; a
  string with no digits there gives 0. (Values outside \<open>int\<close> are undefined in C; the
  model gives the mathematical value.)
\<close>

definition atoi :: "string \<Rightarrow> int" where
  "atoi s =
     (case dropWhile isspace s of
        [] \<Rightarrow> 0
      | c # r \<Rightarrow>
          if c = CHR ''-'' then - atoi_digits r 0
          else if c = CHR ''+'' then atoi_digits r 0
          else atoi_digits (c # r) 0)"

fun digits :: "nat \<Rightarrow> string" where
  "digits n =
     (if n < 10 then [''0123456789'' ! n]
      else digits (n div 10) @ [''0123456789'' ! (n mod 10)])"

declare digits.simps [simp del]

definition itoa :: "int \<Rightarrow> string" where
  "itoa i = (if i < 0 then CHR ''-'' # digits (nat (- i)) else digits (nat i))"

text \<open>\<open>snprintf(buf, size, "%d", i)\<close>: the decimal text, cut to \<open>size - 1\<close> characters.\<close>

definition snprintf_d :: "nat \<Rightarrow> int \<Rightarrow> string" where
  "snprintf_d n i = take (n - 1) (itoa i)"

text \<open>\<open>fprintf(f, "%s", buffer)\<close> prints the buffer up to its first zero byte.\<close>

definition percent_s :: "string \<Rightarrow> string" where
  "percent_s buffer = takeWhile (\<lambda>c. c \<noteq> NUL) buffer"

subsection \<open>The world outside the process\<close>

text \<open>
  Modelled from the spec: \<^verbatim>\<open>socket.h\<close> (\<open>openSocket\<close>, \<open>connectSocket\<close>,
  \<open>writeSocket\<close>, \<open>readSocket\<close>, \<open>closeSocket\<close>, \<open>printSocketError\<close>,
  \<open>initializeNetwork\<close>, \<open>terminateNetwork\<close>) is not among the sources; the spec treats
  these primitives as external collaborators. Their answers are inputs of the model:
  what each call returns is scripted by the \<open>world\<close>, and every call is recorded in a
  trace. A read of up to \<open>n\<close> bytes from a byte source (\<open>readSocket\<close>, and \<open>read\<close> on
  standard input) takes the next scripted item: a failure gives \<open>-1\<close>; a piece of data
  gives its first \<open>n\<close> bytes and keeps the rest for the next read; an exhausted script
  gives 0 bytes (end of file). Standard input is a finite script.
\<close>

datatype input = Data string | Failure

datatype rres = RFail | RGot string

fun read_input :: "input list \<Rightarrow> nat \<Rightarrow> rres \<times> input list" where
  "read_input [] n = (RGot [], [])"
| "read_input (Failure # rest) n = (RFail, rest)"
| "read_input (Data bs # rest) n =
     (if length bs \<le> n then (RGot bs, rest)
      else (RGot (take n bs), Data (drop n bs) # rest))"

fun input_size :: "input list \<Rightarrow> nat" where
  "input_size [] = 0"
| "input_size (Failure # rest) = Suc (input_size rest)"
| "input_size (Data bs # rest) = Suc (length bs + input_size rest)"

datatype event =
    EvOpenSocket bool
  | EvConnect nat int
  | EvWrite string int
  | EvReadStdin nat rres
  | EvRecv nat rres
  | EvStdout string
  | EvStderr string
  | EvSocketError string
  | EvClose
  | EvTerminateNetwork

record world =
  network_rc :: int
  socket_ok :: bool
  connect_rc :: int
  write_rc :: "nat \<Rightarrow> int"
  host_big_endian :: bool
  stdin_script :: "input list"
  socket_script :: "input list"

record state =
  writes_done :: nat
  stdin_pending :: "input list"
  socket_pending :: "input list"
  trace :: "event list"

definition init_state :: "world \<Rightarrow> state" where
  "init_state w =
     \<lparr>writes_done = 0, stdin_pending = stdin_script w,
      socket_pending = socket_script w, trace = []\<rparr>"

definition log :: "event \<Rightarrow> state \<Rightarrow> state" where
  "log e s = s\<lparr>trace := trace s @ [e]\<rparr>"

definition fprintf_stdout :: "string \<Rightarrow> state \<Rightarrow> state" where
  "fprintf_stdout msg s = log (EvStdout msg) s"

definition fprintf_stderr :: "string \<Rightarrow> state \<Rightarrow> state" where
  "fprintf_stderr msg s = log (EvStderr msg) s"

definition printSocketError :: "string \<Rightarrow> state \<Rightarrow> state" where
  "printSocketError msg s = log (EvSocketError msg) s"

definition openSocket :: "world \<Rightarrow> state \<Rightarrow> bool \<times> state" where
  "openSocket w s = (socket_ok w, log (EvOpenSocket (socket_ok w)) s)"

definition connectSocket :: "world \<Rightarrow> state \<Rightarrow> nat \<Rightarrow> int \<times> state" where
  "connectSocket w s port = (connect_rc w, log (EvConnect port (connect_rc w)) s)"

text \<open>The \<open>k\<close>-th call of \<open>writeSocket\<close> returns \<open>write_rc w k\<close> (0 is success).\<close>

definition writeSocket :: "world \<Rightarrow> state \<Rightarrow> string \<Rightarrow> int \<times> state" where
  "writeSocket w s bytes =
     (let rc = write_rc w (writes_done s)
      in (rc, log (EvWrite bytes rc) (s\<lparr>writes_done := Suc (writes_done s)\<rparr>)))"

definition readSocket :: "state \<Rightarrow> nat \<Rightarrow> rres \<times> state" where
  "readSocket s n =
     (case read_input (socket_pending s) n of
        (r, rest) \<Rightarrow> (r, log (EvRecv n r) (s\<lparr>socket_pending := rest\<rparr>)))"

definition read_stdin :: "state \<Rightarrow> nat \<Rightarrow> rres \<times> state" where
  "read_stdin s n =
     (case read_input (stdin_pending s) n of
        (r, rest) \<Rightarrow> (r, log (EvReadStdin n r) (s\<lparr>stdin_pending := rest\<rparr>)))"

definition closeSocket :: "state \<Rightarrow> state" where
  "closeSocket s = log EvClose s"

definition terminateNetwork :: "state \<Rightarrow> state" where
  "terminateNetwork s = log EvTerminateNetwork s"

subsection \<open>\<open>isValidEnvVar\<close>\<close>

fun isValidEnvVar_loop :: "string list \<Rightarrow> string \<Rightarrow> int" where
  "isValidEnvVar_loop [] env = 0"
| "isValidEnvVar_loop (candidate # rest) env =
     (if strncmp env candidate (strlen candidate) = 0
         \<and> strlen candidate < strlen env
         \<and> env ! strlen candidate = CHR ''=''
      then 1
      else isValidEnvVar_loop rest env)"

definition isValidEnvVar :: "string \<Rightarrow> int" where
  "isValidEnvVar env = isValidEnvVar_loop sValidEnvVars env"

subsection \<open>\<open>readDelimitedString\<close>\<close>

text \<open>The two bytes of the length prefix, read into a \<open>uint16_t\<close> in host byte order.\<close>

definition uint16_of :: "bool \<Rightarrow> string \<Rightarrow> nat" where
  "uint16_of big bs =
     (if big then 256 * of_char (bs ! 0) + of_char (bs ! 1)
      else of_char (bs ! 0) + 256 * of_char (bs ! 1))"

lemma read_input_length:
  "read_input script n = (RGot bs, rest) \<Longrightarrow> length bs \<le> n"
  by (cases "(script, n)" rule: read_input.cases) (auto split: if_splits)

lemma read_input_size:
  "read_input script n = (RGot bs, rest) \<Longrightarrow> bs \<noteq> [] \<Longrightarrow> input_size rest < input_size script"
  by (cases "(script, n)" rule: read_input.cases) (auto split: if_splits)

text \<open>
  The \<open>do ... while (bytesRead > 0)\<close> loop: \<open>buf\<close> holds the first \<open>totalBytesRead\<close>
  bytes of the buffer. The result is \<open>None\<close> when the function returns \<open>-1\<close>.
\<close>

function read_payload :: "state \<Rightarrow> nat \<Rightarrow> string \<Rightarrow> string option \<times> state" where
  "read_payload s outputLength buf =
     (case readSocket s (outputLength - length buf) of
        (RFail, s1) \<Rightarrow> (None, printSocketError ''ERROR: Error reading from socket'' s1)
      | (RGot bs, s1) \<Rightarrow>
          if 0 < length bs then read_payload s1 outputLength (buf @ bs)
          else (Some buf, s1))"
  by pat_completeness auto
termination
  apply (relation "measure (\<lambda>(s, outputLength, buf). outputLength - length buf)")
   apply simp
  apply (auto simp: readSocket_def split: prod.splits dest!: read_input_length)
  subgoal for outputLength buf bs
    by (cases bs) auto
  done

declare read_payload.simps [simp del]

text \<open>
  The result is \<open>(return value, buffer)\<close>; the buffer is meaningful when the return
  value is not \<open>-1\<close>, and then it is the bytes before the zero byte stored at
  \<open>buffer[totalBytesRead]\<close>.
\<close>

definition readDelimitedString :: "world \<Rightarrow> state \<Rightarrow> nat \<Rightarrow> (int \<times> string) \<times> state" where
  "readDelimitedString w s bufferSize =
     (case readSocket s 2 of
        (RFail, s1) \<Rightarrow> ((- 1, []), printSocketError ''ERROR: Error reading from socket'' s1)
      | (RGot pre, s1) \<Rightarrow>
          if length pre < 2
          then ((- 1, []), printSocketError ''ERROR: Error reading from socket'' s1)
          else
            let outputLength = uint16_of (host_big_endian w) pre in
            if bufferSize < outputLength
            then ((- 1, []),
                  fprintf_stderr
                    (''ERROR: received string is bigger than buffer ('' @ itoa (int outputLength)
                       @ '' > '' @ itoa (int bufferSize) @ '')'') s1)
            else
              (case read_payload s1 outputLength [] of
                 (None, s2) \<Rightarrow> ((- 1, []), s2)
               | (Some buf, s2) \<Rightarrow> ((int (length buf), buf), s2)))"

subsection \<open>\<open>runTrampolineClient\<close> and \<open>main\<close>\<close>

text \<open>
  A function that may leave through \<open>return 1\<close> in the middle gives \<open>Inl\<close> of the state
  at that return, and \<open>Inr\<close> of the state when control goes on to the next statement.
\<close>

definition WRITE_STRING_OR_EXIT :: "world \<Rightarrow> state \<Rightarrow> string \<Rightarrow> string \<Rightarrow> state + state" where
  "WRITE_STRING_OR_EXIT w s dataName dataString =
     (case writeSocket w s (dataString @ [NUL]) of
        (rc, s1) \<Rightarrow>
          if rc \<noteq> 0 then Inl (printSocketError (''ERROR: Couldn't send '' @ dataName) s1)
          else Inr s1)"

text \<open>The two \<open>for\<close> loops that send every string of an array (lines 116-118, 136-138).\<close>

fun write_strings :: "world \<Rightarrow> state \<Rightarrow> string \<Rightarrow> string list \<Rightarrow> state + state" where
  "write_strings w s dataName [] = Inr s"
| "write_strings w s dataName (x # xs) =
     (case WRITE_STRING_OR_EXIT w s dataName x of
        Inl s1 \<Rightarrow> Inl s1
      | Inr s1 \<Rightarrow> write_strings w s1 dataName xs)"

text \<open>
  The loop over \<open>envp\<close> (lines 123-128). \<open>validEnvVars\<close> is an array of
  \<open>NUMBER_OF_VALID_ENV_VARS\<close> pointers and the loop stores at index \<open>envc\<close> without a
  check; a store at an index outside the array is undefined behaviour in C, and the model
  stops there with a fault. The accumulator holds \<open>validEnvVars[0..envc-1]\<close>.
\<close>

datatype fault = StoreOutOfBounds nat

fun collect_env :: "string list \<Rightarrow> string list \<Rightarrow> fault + string list" where
  "collect_env [] validEnvVars = Inr validEnvVars"
| "collect_env (env # rest) validEnvVars =
     (if isValidEnvVar env \<noteq> 0
      then (if length validEnvVars < NUMBER_OF_VALID_ENV_VARS
            then collect_env rest (validEnvVars @ [env])
            else Inl (StoreOutOfBounds (length validEnvVars)))
      else collect_env rest validEnvVars)"

lemma read_stdin_size:
  "read_stdin s n = (RGot bs, s1) \<Longrightarrow> bs \<noteq> [] \<Longrightarrow>
     input_size (stdin_pending s1) < input_size (stdin_pending s)"
  by (auto simp: read_stdin_def log_def split: prod.splits dest: read_input_size)

lemma writeSocket_stdin_pending:
  "writeSocket w s bytes = (rc, s1) \<Longrightarrow> stdin_pending s1 = stdin_pending s"
  by (auto simp: writeSocket_def log_def Let_def)

text \<open>The \<open>do ... while (bytesToWrite > 0)\<close> loop that forwards standard input (lines 150-169).\<close>

function relay_stdin :: "world \<Rightarrow> state \<Rightarrow> nat \<Rightarrow> state + state" where
  "relay_stdin w s totalBytesWritten =
     (case read_stdin s BUFFER_LENGTH of
        (RFail, s1) \<Rightarrow>
          if totalBytesWritten = 0 then Inr s1
          else Inl (fprintf_stderr ''ERROR: Error reading stdin data'' s1)
      | (RGot bs, s1) \<Rightarrow>
          (case writeSocket w s1 bs of
             (rc, s2) \<Rightarrow>
               if rc \<noteq> 0 then Inl (printSocketError ''ERROR: Couldn't send stdin data'' s2)
               else if 0 < length bs then relay_stdin w s2 (totalBytesWritten + length bs)
               else Inr s2))"
  by pat_completeness auto
termination
  apply (relation "measure (\<lambda>(w, s, total). input_size (stdin_pending s))")
   apply simp
  apply (auto dest!: sym [of "(_, _)"] dest: read_stdin_size simp: writeSocket_stdin_pending)
  done

declare relay_stdin.simps [simp del]

text \<open>Lines 173-191: the two replies, each printed with \<open>"%s"\<close>.\<close>

definition receive_output :: "world \<Rightarrow> state \<Rightarrow> int \<times> state" where
  "receive_output w s =
     (case readDelimitedString w s BUFFER_LENGTH of
        ((r1, buffer1), s1) \<Rightarrow>
          if r1 = - 1 then (1, fprintf_stderr ''ERROR: Couldn't read stdout from socket'' s1)
          else
            (case readDelimitedString w (fprintf_stdout (percent_s buffer1) s1) BUFFER_LENGTH of
               ((r2, buffer2), s2) \<Rightarrow>
                 if r2 = - 1
                 then (1, fprintf_stderr ''ERROR: Couldn't read stdout from socket'' s2)
                 else (0, fprintf_stderr (percent_s buffer2) s2)))"

datatype outcome = Return int | Undefined fault

text \<open>Lines 110-191: what the client does on a connected socket.\<close>

definition session :: "world \<Rightarrow> state \<Rightarrow> string list \<Rightarrow> string list \<Rightarrow> outcome \<times> state" where
  "session w s argv envp =
     (case WRITE_STRING_OR_EXIT w s ''number of arguments''
             (snprintf_d MAXIMUM_NUMBER_LENGTH (int (length argv) - 1)) of
        Inl s1 \<Rightarrow> (Return 1, s1)
      | Inr s1 \<Rightarrow>
     (case write_strings w s1 ''argument'' (drop 1 argv) of
        Inl s2 \<Rightarrow> (Return 1, s2)
      | Inr s2 \<Rightarrow>
     (case collect_env envp [] of
        Inl f \<Rightarrow> (Undefined f, s2)
      | Inr validEnvVars \<Rightarrow>
     (case WRITE_STRING_OR_EXIT w s2 ''number of environment variables''
             (snprintf_d MAXIMUM_NUMBER_LENGTH (int (length validEnvVars))) of
        Inl s3 \<Rightarrow> (Return 1, s3)
      | Inr s3 \<Rightarrow>
     (case write_strings w s3 ''environment variable'' validEnvVars of
        Inl s4 \<Rightarrow> (Return 1, s4)
      | Inr s4 \<Rightarrow>
     (case relay_stdin w s4 0 of
        Inl s5 \<Rightarrow> (Return 1, s5)
      | Inr s5 \<Rightarrow>
     (case writeSocket w s5 [NUL] of
        (rc, s6) \<Rightarrow>
     (case receive_output w s6 of
        (r, s7) \<Rightarrow> (Return r, s7)))))))))"

text \<open>
  \<open>runTrampolineClient\<close>: the result is the returned value, whether \<open>*outSocket\<close> was
  set to the socket (it is \<open>INVALID_SOCKET\<close> before), and the final state.
\<close>

definition runTrampolineClient ::
  "world \<Rightarrow> state \<Rightarrow> string list \<Rightarrow> string list \<Rightarrow> outcome \<times> bool \<times> state" where
  "runTrampolineClient w s argv envp =
     (case getenv ''DESKTOP_PORT'' envp of
        None \<Rightarrow>
          (Return 1, False,
           fprintf_stderr (''ERROR: Missing DESKTOP_PORT environment variable'' @ [CHR 0x0A]) s)
      | Some desktopPortString \<Rightarrow>
          let desktopPort = nat (atoi desktopPortString mod 65536) in
          (case openSocket w s of
             (sock, s1) \<Rightarrow>
               if \<not> sock
               then (Return 1, False, printSocketError ''ERROR: Couldn't create TCP socket'' s1)
               else
                 (case connectSocket w s1 desktopPort of
                    (rc, s2) \<Rightarrow>
                      if rc \<noteq> 0
                      then (Return 1, True,
                            printSocketError
                              (''ERROR: Couldn't connect to 127.0.0.1:'' @ itoa (int desktopPort)) s2)
                      else (case session w s2 argv envp of (out, s3) \<Rightarrow> (out, True, s3)))))"

definition main :: "world \<Rightarrow> string list \<Rightarrow> string list \<Rightarrow> outcome \<times> state" where
  "main w argv envp =
     (if network_rc w \<noteq> 0 then (Return 1, init_state w)
      else
        (case runTrampolineClient w (init_state w) argv envp of
           (Undefined f, sock, s) \<Rightarrow> (Undefined f, s)
         | (Return result, sock, s) \<Rightarrow>
             (Return result, terminateNetwork (if sock then closeSocket s else s))))"

subsection \<open>The reply frames\<close>

text \<open>
  Modelled from the spec: the server that writes the two replies is not part of this
  repository. Its frame is the spec's (section 3): a 2-byte unsigned length followed by
  exactly that many bytes of payload, the length in the byte order \<open>readDelimitedString\<close>
  reads it in (the host's).
\<close>

definition uint16_bytes :: "bool \<Rightarrow> nat \<Rightarrow> string" where
  "uint16_bytes big n =
     (if big then [char_of (n div 256), char_of (n mod 256)]
      else [char_of (n mod 256), char_of (n div 256)])"

definition frame :: "bool \<Rightarrow> string \<Rightarrow> string" where
  "frame big payload = uint16_bytes big (length payload) @ payload"

text \<open>
  The transport hands a byte sequence over in pieces, one piece per read at most. A reply
  arrives \<open>whole\<close> when its pieces are non-empty and the first one covers the two
  bytes of the length; what follows a reply is \<open>quiet\<close> when the next read does not fail.
\<close>

definition whole :: "string list \<Rightarrow> bool" where
  "whole pieces = (pieces \<noteq> [] \<and> 2 \<le> length (hd pieces) \<and> [] \<notin> set pieces)"

fun quiet :: "input list \<Rightarrow> bool" where
  "quiet (Failure # rest) = False"
| "quiet rest = True"

text \<open>What a run wrote to standard output, and the calls that wrote to standard error.\<close>

fun stdout_text :: "event list \<Rightarrow> string" where
  "stdout_text [] = []"
| "stdout_text (EvStdout msg # evs) = msg @ stdout_text evs"
| "stdout_text (e # evs) = stdout_text evs"

fun stderr_calls :: "event list \<Rightarrow> event list" where
  "stderr_calls [] = []"
| "stderr_calls (EvStderr msg # evs) = EvStderr msg # stderr_calls evs"
| "stderr_calls (EvSocketError msg # evs) = EvSocketError msg # stderr_calls evs"
| "stderr_calls (e # evs) = stderr_calls evs"

text \<open>The byte strings handed to \<open>writeSocket\<close>, call by call.\<close>

fun writes_of :: "event list \<Rightarrow> string list" where
  "writes_of [] = []"
| "writes_of (EvWrite bytes rc # evs) = bytes # writes_of evs"
| "writes_of (e # evs) = writes_of evs"

text \<open>
  The events of the receiving phase, and a state reached from another by such events only.
\<close>

fun receive_event :: "event \<Rightarrow> bool" where
  "receive_event (EvRecv n r) = True"
| "receive_event (EvStdout msg) = True"
| "receive_event (EvStderr msg) = True"
| "receive_event (EvSocketError msg) = True"
| "receive_event e = False"

definition receiving :: "state \<Rightarrow> state \<Rightarrow> bool" where
  "receiving s s' = (\<exists>evs. trace s' = trace s @ evs \<and> list_all receive_event evs)"

text \<open>A string as \<open>WRITE_STRING_OR_EXIT\<close> puts it on the wire: its bytes and the zero byte.\<close>

definition cstring :: "string \<Rightarrow> string" where
  "cstring x = x @ [NUL]"

text \<open>
  The strings sent before standard input: the argument count, the arguments, the count of
  the collected environment entries, the entries.
\<close>

definition header :: "string list \<Rightarrow> string list \<Rightarrow> string list" where
  "header argv validEnvVars =
     snprintf_d MAXIMUM_NUMBER_LENGTH (int (length argv) - 1) # drop 1 argv
       @ snprintf_d MAXIMUM_NUMBER_LENGTH (int (length validEnvVars)) # validEnvVars"

text \<open>
  A world in which the network is up, the server listens, and every write succeeds; its
  standard input and the server's replies are given.
\<close>

definition server_world :: "bool \<Rightarrow> input list \<Rightarrow> input list \<Rightarrow> world" where
  "server_world big stdin replies =
     \<lparr>network_rc = 0, socket_ok = True, connect_rc = 0, write_rc = (\<lambda>k. 0),
      host_big_endian = big, stdin_script = stdin, socket_script = replies\<rparr>"

section \<open>Evaluating a run\<close>

text \<open>
  The definitions a concrete run unfolds, and how the observations distribute over a trace.
\<close>

lemmas eval_defs =
  main_def runTrampolineClient_def session_def receive_output_def readDelimitedString_def
  WRITE_STRING_OR_EXIT_def writeSocket_def readSocket_def read_stdin_def openSocket_def
  connectSocket_def closeSocket_def terminateNetwork_def printSocketError_def
  fprintf_stderr_def fprintf_stdout_def log_def init_state_def server_world_def
  isValidEnvVar_def sValidEnvVars_def strlen_def atoi_def isspace_def isdigit_def
  itoa_def snprintf_d_def percent_s_def uint16_of_def uint16_bytes_def frame_def
  BUFFER_LENGTH_def MAXIMUM_NUMBER_LENGTH_def NUMBER_OF_VALID_ENV_VARS_def NUL_def
  Let_def digits.simps relay_stdin.simps read_payload.simps char_of_def bit_Suc_0_iff

lemma writes_of_append [simp]: "writes_of (xs @ ys) = writes_of xs @ writes_of ys"
  by (induction xs rule: writes_of.induct) auto

lemma stdout_text_append [simp]: "stdout_text (xs @ ys) = stdout_text xs @ stdout_text ys"
  by (induction xs rule: stdout_text.induct) auto

lemma stderr_calls_append [simp]: "stderr_calls (xs @ ys) = stderr_calls xs @ stderr_calls ys"
  by (induction xs rule: stderr_calls.induct) auto

section \<open>The environment filter\<close>

lemma of_char_zero_iff: "(of_char c :: nat) = 0 \<longleftrightarrow> c = NUL"
proof -
  have "(of_char c :: nat) = of_char NUL \<longleftrightarrow> c = NUL"
    by (rule of_char_eq_iff)
  then show ?thesis by (simp add: NUL_def)
qed

lemma strncmp_zero_iff:
  "NUL \<notin> set c \<Longrightarrow> strncmp e c (length c) = 0 \<longleftrightarrow> take (length c) e = c"
proof (induction c arbitrary: e)
  case Nil
  then show ?case by simp
next
  case (Cons y ys)
  show ?case
  proof (cases e)
    case Nil
    with Cons.prems show ?thesis by (auto simp: of_char_zero_iff)
  next
    case (Cons x xs)
    with Cons.prems Cons.IH [of xs] show ?thesis by auto
  qed
qed

lemma candidate_matches_iff:
  assumes "CHR ''='' \<notin> set name" "CHR ''='' \<notin> set c"
  shows "take (length c) (name @ CHR ''='' # v) = c
           \<and> length c < length (name @ CHR ''='' # v)
           \<and> (name @ CHR ''='' # v) ! length c = CHR ''=''
         \<longleftrightarrow> c = name"
proof
  assume h: "take (length c) (name @ CHR ''='' # v) = c
           \<and> length c < length (name @ CHR ''='' # v)
           \<and> (name @ CHR ''='' # v) ! length c = CHR ''=''"
  consider "length c < length name" | "length c = length name" | "length name < length c"
    by linarith
  then show "c = name"
  proof cases
    case 1
    with h have "name ! length c = CHR ''=''" by (simp add: nth_append)
    with 1 assms(1) show ?thesis by (metis nth_mem)
  next
    case 2
    with h show ?thesis by simp
  next
    case 3
    from h have "c ! length name = (name @ CHR ''='' # v) ! length name"
      using 3 by (metis nth_take)
    then have "c ! length name = CHR ''=''" by simp
    with 3 assms(2) show ?thesis by (metis nth_mem)
  qed
next
  assume "c = name"
  then show "take (length c) (name @ CHR ''='' # v) = c
           \<and> length c < length (name @ CHR ''='' # v)
           \<and> (name @ CHR ''='' # v) ! length c = CHR ''=''"
    by simp
qed

lemma isValidEnvVar_loop_iff:
  assumes "CHR ''='' \<notin> set name"
    and "\<forall>c \<in> set cs. NUL \<notin> set c \<and> CHR ''='' \<notin> set c"
  shows "isValidEnvVar_loop cs (name @ CHR ''='' # v) = (if name \<in> set cs then 1 else 0)"
  using assms(2)
proof (induction cs)
  case Nil
  then show ?case by simp
next
  case (Cons c cs)
  have c: "NUL \<notin> set c" "CHR ''='' \<notin> set c" using Cons.prems by auto
  have "(strncmp (name @ CHR ''='' # v) c (strlen c) = 0
          \<and> strlen c < strlen (name @ CHR ''='' # v)
          \<and> (name @ CHR ''='' # v) ! strlen c = CHR ''='') \<longleftrightarrow> c = name"
    unfolding strlen_def strncmp_zero_iff [OF c(1)]
    by (rule candidate_matches_iff [OF assms(1) c(2)])
  with Cons show ?case by auto
qed

lemma sValidEnvVars_clean:
  "\<forall>c \<in> set sValidEnvVars. NUL \<notin> set c \<and> CHR ''='' \<notin> set c"
  by (simp add: sValidEnvVars_def NUL_def)

lemma sValidEnvVars_no_proper_prefix:
  "X \<in> set sValidEnvVars \<Longrightarrow> extra \<noteq> [] \<Longrightarrow> X @ extra \<notin> set sValidEnvVars"
  by (auto simp: sValidEnvVars_def)

text \<open>
  Claim C2. For a string \<open>NAME=value\<close> (the name holds no \<open>=\<close>), \<open>isValidEnvVar\<close>
  returns 1 exactly when \<open>NAME\<close> is one of the four allow-listed names, and 0 otherwise.
  In particular an allow-listed name \<open>X\<close> with any value is accepted, and \<open>X\<close> followed
  by further characters before the \<open>=\<close> is rejected.
\<close>

theorem isValidEnvVar_exact_name:
  "(CHR ''='' \<notin> set name \<longrightarrow>
      isValidEnvVar (name @ ''='' @ v) = (if name \<in> set sValidEnvVars then 1 else 0))
   \<and> (X \<in> set sValidEnvVars \<longrightarrow> isValidEnvVar (X @ ''='' @ v) = 1)
   \<and> (X \<in> set sValidEnvVars \<and> extra \<noteq> [] \<and> CHR ''='' \<notin> set extra \<longrightarrow>
        isValidEnvVar (X @ extra @ ''='' @ v) = 0)"
proof (intro conjI impI)
  assume "CHR ''='' \<notin> set name"
  then show "isValidEnvVar (name @ ''='' @ v) = (if name \<in> set sValidEnvVars then 1 else 0)"
    using isValidEnvVar_loop_iff [OF _ sValidEnvVars_clean, of name v]
    by (simp add: isValidEnvVar_def)
next
  assume X: "X \<in> set sValidEnvVars"
  then have "CHR ''='' \<notin> set X" using sValidEnvVars_clean by blast
  then show "isValidEnvVar (X @ ''='' @ v) = 1"
    using isValidEnvVar_loop_iff [OF _ sValidEnvVars_clean, of X v] X
    by (simp add: isValidEnvVar_def)
next
  assume h: "X \<in> set sValidEnvVars \<and> extra \<noteq> [] \<and> CHR ''='' \<notin> set extra"
  then have "CHR ''='' \<notin> set (X @ extra)" using sValidEnvVars_clean by auto
  moreover have "X @ extra \<notin> set sValidEnvVars"
    using h sValidEnvVars_no_proper_prefix by blast
  ultimately show "isValidEnvVar (X @ extra @ ''='' @ v) = 0"
    using isValidEnvVar_loop_iff [OF _ sValidEnvVars_clean, of "X @ extra" v]
    by (simp add: isValidEnvVar_def)
qed

theorem isValidEnvVar_exact_name_witness:
  "CHR ''='' \<notin> set ''DESKTOP_USERNAME''
   \<and> ''DESKTOP_USERNAME'' \<in> set sValidEnvVars
   \<and> ''_SOMETHING'' \<noteq> [] \<and> CHR ''='' \<notin> set ''_SOMETHING''
   \<and> isValidEnvVar ''DESKTOP_USERNAME=sergiou87'' = 1
   \<and> isValidEnvVar ''DESKTOP_USERNAME_SOMETHING=sergiou87'' = 0"
  using isValidEnvVar_exact_name [of "''DESKTOP_USERNAME''" "''sergiou87''"
      "''DESKTOP_USERNAME''" "''_SOMETHING''"]
  by (simp add: sValidEnvVars_def)

section \<open>The array of collected environment entries\<close>

lemma collect_env_eq:
  "length acc \<le> NUMBER_OF_VALID_ENV_VARS \<Longrightarrow>
   collect_env envp acc =
     (if length acc + length (filter (\<lambda>e. isValidEnvVar e \<noteq> 0) envp) \<le> NUMBER_OF_VALID_ENV_VARS
      then Inr (acc @ filter (\<lambda>e. isValidEnvVar e \<noteq> 0) envp)
      else Inl (StoreOutOfBounds NUMBER_OF_VALID_ENV_VARS))"
proof (induction envp arbitrary: acc)
  case Nil
  then show ?case by simp
next
  case (Cons e es)
  show ?case
  proof (cases "isValidEnvVar e \<noteq> 0")
    case False
    with Cons show ?thesis by simp
  next
    case True
    show ?thesis
    proof (cases "length acc < NUMBER_OF_VALID_ENV_VARS")
      case lt: True
      then have "length (acc @ [e]) \<le> NUMBER_OF_VALID_ENV_VARS" by simp
      from Cons.IH [OF this] True lt show ?thesis by simp
    next
      case False
      with Cons.prems have "length acc = NUMBER_OF_VALID_ENV_VARS" by simp
      with True show ?thesis by simp
    qed
  qed
qed

text \<open>
  Claim C10. \<open>validEnvVars\<close> has \<open>NUMBER_OF_VALID_ENV_VARS = 4\<close> slots. The loop over
  \<open>envp\<close> keeps every store inside the array exactly when the environment holds at most 4
  entries that pass \<open>isValidEnvVar\<close> (it then collects them all, in order, duplicates
  included); with more, it stores at index 4, outside the array. Five copies of one
  allow-listed entry are such an environment.
\<close>

theorem validEnvVars_bounds:
  "NUMBER_OF_VALID_ENV_VARS = 4
   \<and> collect_env envp [] =
       (if length (filter (\<lambda>e. isValidEnvVar e \<noteq> 0) envp) \<le> NUMBER_OF_VALID_ENV_VARS
        then Inr (filter (\<lambda>e. isValidEnvVar e \<noteq> 0) envp)
        else Inl (StoreOutOfBounds NUMBER_OF_VALID_ENV_VARS))
   \<and> collect_env (replicate 5 ''DESKTOP_USERNAME=a'') [] = Inl (StoreOutOfBounds 4)"
proof (intro conjI)
  show "NUMBER_OF_VALID_ENV_VARS = 4" by (simp add: NUMBER_OF_VALID_ENV_VARS_def)
  show "collect_env envp [] =
       (if length (filter (\<lambda>e. isValidEnvVar e \<noteq> 0) envp) \<le> NUMBER_OF_VALID_ENV_VARS
        then Inr (filter (\<lambda>e. isValidEnvVar e \<noteq> 0) envp)
        else Inl (StoreOutOfBounds NUMBER_OF_VALID_ENV_VARS))"
    using collect_env_eq [of "[]" envp] by simp
  have "replicate 5 ''DESKTOP_USERNAME=a'' = [''DESKTOP_USERNAME=a'', ''DESKTOP_USERNAME=a'',
      ''DESKTOP_USERNAME=a'', ''DESKTOP_USERNAME=a'', ''DESKTOP_USERNAME=a'']"
    by (simp add: numeral_eq_Suc)
  then show "collect_env (replicate 5 ''DESKTOP_USERNAME=a'') [] = Inl (StoreOutOfBounds 4)"
    by (simp add: isValidEnvVar_def sValidEnvVars_def strlen_def NUMBER_OF_VALID_ENV_VARS_def)
qed

section \<open>The frame decoder\<close>

text \<open>
  Claim C4. When the two bytes of the length prefix have been read and the length they
  declare exceeds the buffer size, \<open>readDelimitedString\<close> returns \<open>-1\<close> after reporting the
  error, and it has read nothing but the prefix: the socket's pending input is what the
  prefix read left, and that read is the only one in the trace.
\<close>

theorem oversized_frame_rejected:
  assumes "read_input (socket_pending s) 2 = (RGot pre, rest)" and "length pre = 2"
    and "bufferSize < uint16_of (host_big_endian w) pre"
  shows "fst (fst (readDelimitedString w s bufferSize)) = - 1
       \<and> socket_pending (snd (readDelimitedString w s bufferSize)) = rest
       \<and> trace (snd (readDelimitedString w s bufferSize)) =
           trace s @ [EvRecv 2 (RGot pre),
             EvStderr (''ERROR: received string is bigger than buffer (''
               @ itoa (int (uint16_of (host_big_endian w) pre)) @ '' > ''
               @ itoa (int bufferSize) @ '')'')]"
  using assms
  by (simp add: readDelimitedString_def readSocket_def Let_def log_def fprintf_stderr_def)

theorem oversized_frame_rejected_witness:
  "read_input [Data (''ab'' @ ''payload'')] 2 = (RGot ''ab'', [Data ''payload''])
   \<and> BUFFER_LENGTH < uint16_of False ''ab''
   \<and> fst (fst (readDelimitedString (server_world False [] [Data (''ab'' @ ''payload'')])
         (init_state (server_world False [] [Data (''ab'' @ ''payload'')])) BUFFER_LENGTH)) = - 1
   \<and> socket_pending (snd (readDelimitedString (server_world False [] [Data (''ab'' @ ''payload'')])
         (init_state (server_world False [] [Data (''ab'' @ ''payload'')])) BUFFER_LENGTH))
       = [Data ''payload'']"
  using oversized_frame_rejected [of "init_state (server_world False [] [Data (''ab'' @ ''payload'')])"
      "''ab''" "[Data ''payload'']" BUFFER_LENGTH "server_world False [] [Data (''ab'' @ ''payload'')]"]
  by (simp add: init_state_def server_world_def uint16_of_def BUFFER_LENGTH_def)

lemma uint16_of_bytes:
  "n < 65536 \<Longrightarrow> uint16_of big (uint16_bytes big n) = n"
  by (auto simp: uint16_of_def uint16_bytes_def)

lemma quiet_read0: "quiet rest \<Longrightarrow> fst (read_input rest 0) = RGot []"
  by (cases "(rest, 0::nat)" rule: read_input.cases) auto


text \<open>Reading the payload of a reply that arrives in non-empty pieces.\<close>

lemma read_payload_pieces:
  assumes "[] \<notin> set pieces" "quiet rest"
    and "socket_pending s = map Data pieces @ rest"
    and "outputLength = length buf + length (concat pieces)"
  shows "\<exists>s'. read_payload s outputLength buf = (Some (buf @ concat pieces), s')
           \<and> socket_pending s' = snd (read_input rest 0)
           \<and> stdin_pending s' = stdin_pending s
           \<and> writes_done s' = writes_done s
           \<and> stdout_text (trace s') = stdout_text (trace s)
           \<and> stderr_calls (trace s') = stderr_calls (trace s)"
  using assms
proof (induction pieces arbitrary: s buf)
  case Nil
  then have "outputLength - length buf = 0" by simp
  moreover obtain r rest' where r: "read_input rest 0 = (r, rest')" by force
  moreover have "r = RGot []" using quiet_read0 [OF Nil.prems(2)] r by simp
  ultimately show ?case using Nil.prems(3)
    by (subst read_payload.simps) (simp add: readSocket_def log_def)
next
  case (Cons c cs)
  let ?s1 = "log (EvRecv (outputLength - length buf) (RGot c)) (s\<lparr>socket_pending := map Data cs @ rest\<rparr>)"
  have c: "c \<noteq> []" and cs: "[] \<notin> set cs" using Cons.prems(1) by auto
  have "length c \<le> outputLength - length buf" using Cons.prems(4) by simp
  then have rd: "readSocket s (outputLength - length buf) = (RGot c, ?s1)"
    using Cons.prems(3) by (simp add: readSocket_def)
  have "\<exists>s'. read_payload ?s1 outputLength (buf @ c) = (Some ((buf @ c) @ concat cs), s')
           \<and> socket_pending s' = snd (read_input rest 0)
           \<and> stdin_pending s' = stdin_pending ?s1
           \<and> writes_done s' = writes_done ?s1
           \<and> stdout_text (trace s') = stdout_text (trace ?s1)
           \<and> stderr_calls (trace s') = stderr_calls (trace ?s1)"
    by (rule Cons.IH [OF cs Cons.prems(2)]) (use Cons.prems(4) in \<open>simp_all add: log_def\<close>)
  then show ?case
    using rd c by (subst read_payload.simps) (auto simp: log_def)
qed


lemma readDelimitedString_whole:
  assumes "whole pieces" and "concat pieces = frame (host_big_endian w) payload"
    and "length payload \<le> bufferSize" and "length payload < 65536"
    and "quiet rest" and "socket_pending s = map Data pieces @ rest"
  shows "\<exists>s'. readDelimitedString w s bufferSize = ((int (length payload), payload), s')
           \<and> socket_pending s' = snd (read_input rest 0)
           \<and> stdin_pending s' = stdin_pending s
           \<and> writes_done s' = writes_done s
           \<and> stdout_text (trace s') = stdout_text (trace s)
           \<and> stderr_calls (trace s') = stderr_calls (trace s)"
proof -
  from assms(1) obtain c cs where pieces: "pieces = c # cs" and c2: "2 \<le> length c"
    and ne: "[] \<notin> set cs"
    by (cases pieces) (auto simp: whole_def)
  define cs' where "cs' = (if length c = 2 then cs else drop 2 c # cs)"
  define pre where "pre = uint16_bytes (host_big_endian w) (length payload)"
  have lpre: "length pre = 2" by (simp add: pre_def uint16_bytes_def)
  have eq: "c @ concat cs = pre @ payload"
    using assms(2) by (simp add: pieces frame_def pre_def)
  have "take 2 (c @ concat cs) = take 2 (pre @ payload)" using eq by simp
  then have tk: "take 2 c = pre" using c2 lpre by simp
  have "drop 2 (c @ concat cs) = drop 2 (pre @ payload)" using eq by simp
  then have dr: "drop 2 c @ concat cs = payload" using c2 lpre by simp
  have cs'_ne: "[] \<notin> set cs'" using ne c2 by (auto simp: cs'_def)
  have cs'_cat: "concat cs' = payload" using dr c2 by (auto simp: cs'_def)
  let ?s1 = "log (EvRecv 2 (RGot pre)) (s\<lparr>socket_pending := map Data cs' @ rest\<rparr>)"
  have rd: "readSocket s 2 = (RGot pre, ?s1)"
    using assms(6) c2 tk by (auto simp: readSocket_def pieces cs'_def)
  have len: "uint16_of (host_big_endian w) pre = length payload"
    unfolding pre_def by (rule uint16_of_bytes [OF assms(4)])
  have "\<exists>s'. read_payload ?s1 (length payload) [] = (Some ([] @ concat cs'), s')
           \<and> socket_pending s' = snd (read_input rest 0)
           \<and> stdin_pending s' = stdin_pending ?s1
           \<and> writes_done s' = writes_done ?s1
           \<and> stdout_text (trace s') = stdout_text (trace ?s1)
           \<and> stderr_calls (trace s') = stderr_calls (trace ?s1)"
    by (rule read_payload_pieces [OF cs'_ne assms(5)]) (simp_all add: log_def cs'_cat)
  then show ?thesis
    using rd lpre len assms(3) cs'_cat
    by (auto simp: readDelimitedString_def Let_def log_def)
qed

text \<open>
  Claim C8, as amended. A reply frame (the 2-byte length in host byte order, then the
  payload) whose payload fits the buffer and that arrives whole is decoded by
  \<open>readDelimitedString\<close> to exactly its payload, with the payload's length as return value.
\<close>

theorem decode_frame:
  assumes "length payload \<le> bufferSize" and "length payload < 65536"
    and "whole pieces" and "concat pieces = frame (host_big_endian w) payload"
    and "quiet rest" and "socket_pending s = map Data pieces @ rest"
  shows "fst (readDelimitedString w s bufferSize) = (int (length payload), payload)"
  using readDelimitedString_whole [OF assms(3,4,1,2,5,6)] by auto

theorem decode_frame_witness:
  "length ''clean'' \<le> BUFFER_LENGTH
   \<and> whole [take 3 (frame False ''clean''), drop 3 (frame False ''clean'')]
   \<and> quiet []
   \<and> fst (readDelimitedString (server_world False [] [])
        ((init_state (server_world False [] []))
           \<lparr>socket_pending := [Data (take 3 (frame False ''clean'')), Data (drop 3 (frame False ''clean''))]\<rparr>)
        BUFFER_LENGTH) = (5, ''clean'')"
  using decode_frame [of "''clean''" BUFFER_LENGTH
      "[take 3 (frame False ''clean''), drop 3 (frame False ''clean'')]"
      "server_world False [] []" "[]"
      "(init_state (server_world False [] []))
           \<lparr>socket_pending := [Data (take 3 (frame False ''clean'')), Data (drop 3 (frame False ''clean''))]\<rparr>"]
  by (simp add: whole_def frame_def uint16_bytes_def server_world_def BUFFER_LENGTH_def)

text \<open>
  Claim C8 as stated fails: the client's encoder \<open>WRITE_STRING_OR_EXIT\<close> writes the
  string and a zero byte, without a length prefix. Fed to \<open>readDelimitedString\<close>, the
  bytes of \<open>"ab"\<close> so encoded are read as a length prefix that exceeds the buffer (in
  either byte order), and the decoder returns \<open>-1\<close>.
\<close>

theorem encoder_roundtrip_counterexample:
  "WRITE_STRING_OR_EXIT (server_world False [] []) (init_state (server_world False [] []))
      ''argument'' ''ab''
     = Inr \<lparr>writes_done = 1, stdin_pending = [], socket_pending = [],
            trace = [EvWrite (''ab'' @ [NUL]) 0]\<rparr>
   \<and> fst (readDelimitedString (server_world False [] [Data (''ab'' @ [NUL])])
        (init_state (server_world False [] [Data (''ab'' @ [NUL])])) BUFFER_LENGTH) = (- 1, [])
   \<and> fst (readDelimitedString (server_world True [] [Data (''ab'' @ [NUL])])
        (init_state (server_world True [] [Data (''ab'' @ [NUL])])) BUFFER_LENGTH) = (- 1, [])"
  by (simp add: eval_defs)

section \<open>The phases of a session\<close>

lemma WRITE_STRING_OR_EXIT_ok:
  "write_rc w (writes_done s) = 0 \<Longrightarrow>
     WRITE_STRING_OR_EXIT w s dataName x =
       Inr (s\<lparr>writes_done := Suc (writes_done s), trace := trace s @ [EvWrite (cstring x) 0]\<rparr>)"
  by (simp add: WRITE_STRING_OR_EXIT_def writeSocket_def log_def Let_def cstring_def)

lemma WRITE_STRING_OR_EXIT_Inr:
  "WRITE_STRING_OR_EXIT w s dataName x = Inr s1 \<Longrightarrow>
     s1 = s\<lparr>writes_done := Suc (writes_done s), trace := trace s @ [EvWrite (cstring x) 0]\<rparr>"
  by (auto simp: WRITE_STRING_OR_EXIT_def writeSocket_def log_def Let_def cstring_def
      split: if_splits)

lemma write_strings_ok:
  "(\<forall>k < length xs. write_rc w (writes_done s + k) = 0) \<Longrightarrow>
     write_strings w s dataName xs =
       Inr (s\<lparr>writes_done := writes_done s + length xs,
              trace := trace s @ map (\<lambda>x. EvWrite (cstring x) 0) xs\<rparr>)"
proof (induction xs arbitrary: s)
  case Nil
  then show ?case by simp
next
  case (Cons x xs)
  let ?s1 = "s\<lparr>writes_done := Suc (writes_done s), trace := trace s @ [EvWrite (cstring x) 0]\<rparr>"
  have "write_rc w (writes_done s) = 0" using Cons.prems by force
  then have 1: "WRITE_STRING_OR_EXIT w s dataName x = Inr ?s1"
    by (rule WRITE_STRING_OR_EXIT_ok)
  have "\<forall>k < length xs. write_rc w (writes_done ?s1 + k) = 0"
    using Cons.prems by force
  from Cons.IH [OF this] 1 show ?case by simp
qed

lemma write_strings_Inr:
  "write_strings w s dataName xs = Inr s1 \<Longrightarrow>
     s1 = s\<lparr>writes_done := writes_done s + length xs,
            trace := trace s @ map (\<lambda>x. EvWrite (cstring x) 0) xs\<rparr>"
proof (induction xs arbitrary: s)
  case Nil
  then show ?case by simp
next
  case (Cons x xs)
  from Cons.prems obtain s0 where 0: "WRITE_STRING_OR_EXIT w s dataName x = Inr s0"
    and 1: "write_strings w s0 dataName xs = Inr s1"
    by (auto split: sum.splits)
  from Cons.IH [OF 1] WRITE_STRING_OR_EXIT_Inr [OF 0] show ?case by simp
qed

text \<open>Standard input gives some chunks, then a read fails.\<close>

lemma relay_stdin_read_error:
  assumes "\<forall>c \<in> set chunks. c \<noteq> [] \<and> length c \<le> BUFFER_LENGTH"
    and "\<forall>k < length chunks. write_rc w (writes_done s + k) = 0"
    and "stdin_pending s = map Data chunks @ Failure # rest"
  shows "relay_stdin w s tot =
     (let s' = s\<lparr>writes_done := writes_done s + length chunks, stdin_pending := rest,
                  trace := trace s
                    @ concat (map (\<lambda>c. [EvReadStdin BUFFER_LENGTH (RGot c), EvWrite c 0]) chunks)
                    @ [EvReadStdin BUFFER_LENGTH RFail]\<rparr>
      in if tot = 0 \<and> chunks = [] then Inr s'
         else Inl (fprintf_stderr ''ERROR: Error reading stdin data'' s'))"
  using assms
proof (induction chunks arbitrary: s tot)
  case Nil
  then show ?case
    by (subst relay_stdin.simps) (simp add: read_stdin_def log_def)
next
  case (Cons c cs)
  let ?s1 = "log (EvReadStdin BUFFER_LENGTH (RGot c)) (s\<lparr>stdin_pending := map Data cs @ Failure # rest\<rparr>)"
  let ?s2 = "log (EvWrite c 0) (?s1\<lparr>writes_done := Suc (writes_done ?s1)\<rparr>)"
  have c: "c \<noteq> []" "length c \<le> BUFFER_LENGTH" using Cons.prems(1) by auto
  have rd: "read_stdin s BUFFER_LENGTH = (RGot c, ?s1)"
    using Cons.prems(3) c by (simp add: read_stdin_def)
  have "write_rc w (writes_done s) = 0" using Cons.prems(2) by force
  then have wr: "writeSocket w ?s1 c = (0, ?s2)"
    by (simp add: writeSocket_def Let_def log_def)
  have step: "relay_stdin w s tot = relay_stdin w ?s2 (tot + length c)"
    using rd wr c by (subst relay_stdin.simps) simp
  have "\<forall>k < length cs. write_rc w (writes_done ?s2 + k) = 0"
    using Cons.prems(2) by (force simp: log_def)
  from Cons.IH [OF _ this, of "tot + length c"] Cons.prems(1) c
  show ?case unfolding step by (simp add: log_def Let_def)
qed

lemma session_after_header:
  assumes "collect_env envp [] = Inr vs"
    and "\<forall>k < length (header argv vs). write_rc w (writes_done s + k) = 0"
  shows "session w s argv envp =
     (case relay_stdin w
             (s\<lparr>writes_done := writes_done s + length (header argv vs),
                trace := trace s @ map (\<lambda>x. EvWrite (cstring x) 0) (header argv vs)\<rparr>) 0 of
        Inl s5 \<Rightarrow> (Return 1, s5)
      | Inr s5 \<Rightarrow>
          (case writeSocket w s5 [NUL] of
             (rc, s6) \<Rightarrow> (case receive_output w s6 of (r, s7) \<Rightarrow> (Return r, s7))))"
proof -
  define a where "a = snprintf_d MAXIMUM_NUMBER_LENGTH (int (length argv) - 1)"
  define b where "b = snprintf_d MAXIMUM_NUMBER_LENGTH (int (length vs))"
  define args where "args = drop 1 argv"
  have h: "header argv vs = a # args @ b # vs"
    by (simp add: header_def a_def b_def args_def)
  let ?ev = "\<lambda>x. EvWrite (cstring x) 0"
  let ?s1 = "s\<lparr>writes_done := Suc (writes_done s), trace := trace s @ [?ev a]\<rparr>"
  let ?s2 = "?s1\<lparr>writes_done := writes_done ?s1 + length args,
                  trace := trace ?s1 @ map ?ev args\<rparr>"
  let ?s3 = "?s2\<lparr>writes_done := Suc (writes_done ?s2), trace := trace ?s2 @ [?ev b]\<rparr>"
  let ?s4 = "?s3\<lparr>writes_done := writes_done ?s3 + length vs, trace := trace ?s3 @ map ?ev vs\<rparr>"
  have ok: "\<And>k. k < Suc (length args + Suc (length vs)) \<Longrightarrow> write_rc w (writes_done s + k) = 0"
    using assms(2) by (simp add: h)
  have 1: "WRITE_STRING_OR_EXIT w s ''number of arguments'' a = Inr ?s1"
    using ok [of 0] by (simp add: WRITE_STRING_OR_EXIT_ok)
  have "\<forall>k < length args. write_rc w (writes_done ?s1 + k) = 0"
  proof (intro allI impI)
    fix k assume "k < length args"
    then show "write_rc w (writes_done ?s1 + k) = 0"
      using ok [of "Suc k"] by simp
  qed
  then have 2: "write_strings w ?s1 ''argument'' args = Inr ?s2"
    by (rule write_strings_ok)
  have "write_rc w (writes_done ?s2) = 0"
    using ok [of "Suc (length args)"] by simp
  then have 3: "WRITE_STRING_OR_EXIT w ?s2 ''number of environment variables'' b = Inr ?s3"
    by (rule WRITE_STRING_OR_EXIT_ok)
  have "\<forall>k < length vs. write_rc w (writes_done ?s3 + k) = 0"
  proof (intro allI impI)
    fix k assume "k < length vs"
    then show "write_rc w (writes_done ?s3 + k) = 0"
      using ok [of "Suc (length args) + Suc k"] by (simp add: add.assoc)
  qed
  then have 4: "write_strings w ?s3 ''environment variable'' vs = Inr ?s4"
    by (rule write_strings_ok)
  have s4: "?s4 = s\<lparr>writes_done := writes_done s + length (header argv vs),
                trace := trace s @ map ?ev (header argv vs)\<rparr>"
    by (simp add: h)
  have "session w s argv envp =
     (case relay_stdin w ?s4 0 of
        Inl s5 \<Rightarrow> (Return 1, s5)
      | Inr s5 \<Rightarrow>
          (case writeSocket w s5 [NUL] of
             (rc, s6) \<Rightarrow> (case receive_output w s6 of (r, s7) \<Rightarrow> (Return r, s7))))"
    using 1 2 3 4 assms(1) unfolding session_def a_def b_def args_def by simp
  then show ?thesis unfolding s4 .
qed

lemma main_connected:
  assumes "network_rc w = 0" and "getenv ''DESKTOP_PORT'' envp = Some port"
    and "socket_ok w" and "connect_rc w = 0"
  shows "main w argv envp =
     (case session w
             ((init_state w)\<lparr>trace := [EvOpenSocket True,
                                        EvConnect (nat (atoi port mod 65536)) 0]\<rparr>) argv envp of
        (Undefined f, s) \<Rightarrow> (Undefined f, s)
      | (Return r, s) \<Rightarrow> (Return r, terminateNetwork (closeSocket s)))"
  using assms
  by (simp add: main_def runTrampolineClient_def openSocket_def connectSocket_def log_def
      init_state_def Let_def split: prod.splits outcome.splits)

lemma read_payload_writes:
  "writes_of (trace (snd (read_payload s n buf))) = writes_of (trace s)
   \<and> writes_done (snd (read_payload s n buf)) = writes_done s"
proof (induction s n buf rule: read_payload.induct)
  case (1 s n buf)
  obtain r s1 where rd: "readSocket s (n - length buf) = (r, s1)" by force
  then have s1: "writes_of (trace s1) = writes_of (trace s)" "writes_done s1 = writes_done s"
    by (auto simp: readSocket_def log_def split: prod.splits)
  show ?case
  proof (cases r)
    case RFail
    with rd s1 show ?thesis
      by (subst (1 2) read_payload.simps) (simp add: printSocketError_def log_def)
  next
    case (RGot bs)
    show ?thesis
    proof (cases "0 < length bs")
      case True
      from "1.IH" [OF rd [symmetric] RGot True] rd RGot True s1 show ?thesis
        by (subst (1 2) read_payload.simps) simp
    next
      case False
      with rd RGot s1 show ?thesis
        by (subst (1 2) read_payload.simps) simp
    qed
  qed
qed

lemma readDelimitedString_writes:
  "writes_of (trace (snd (readDelimitedString w s n))) = writes_of (trace s)
   \<and> writes_done (snd (readDelimitedString w s n)) = writes_done s"
proof -
  obtain r s1 where rd: "readSocket s 2 = (r, s1)" by force
  then have s1: "writes_of (trace s1) = writes_of (trace s)" "writes_done s1 = writes_done s"
    by (auto simp: readSocket_def log_def split: prod.splits)
  show ?thesis
    using rd s1 read_payload_writes [of s1 "uint16_of (host_big_endian w) (case r of RGot pre \<Rightarrow> pre | RFail \<Rightarrow> [])" "[]"]
    by (auto simp: readDelimitedString_def Let_def printSocketError_def fprintf_stderr_def log_def
        split: rres.splits prod.splits option.splits)
qed

lemma receive_output_writes:
  "writes_of (trace (snd (receive_output w s))) = writes_of (trace s)"
proof -
  obtain r1 b1 s1 where 1: "readDelimitedString w s BUFFER_LENGTH = ((r1, b1), s1)"
    by (metis surj_pair)
  obtain r2 b2 s2 where 2: "readDelimitedString w (fprintf_stdout (percent_s b1) s1) BUFFER_LENGTH = ((r2, b2), s2)"
    by (metis surj_pair)
  have a: "writes_of (trace s1) = writes_of (trace s)"
    using readDelimitedString_writes [of w s BUFFER_LENGTH] 1 by simp
  have b: "writes_of (trace s2) = writes_of (trace s1)"
    using readDelimitedString_writes [of w "fprintf_stdout (percent_s b1) s1" BUFFER_LENGTH] 2
    by (simp add: fprintf_stdout_def log_def)
  show ?thesis
    using 1 2 a b by (simp add: receive_output_def fprintf_stderr_def log_def)
qed

lemma relay_stdin_Inr:
  "relay_stdin w s tot = Inr s' \<Longrightarrow>
     socket_pending s' = socket_pending s
     \<and> stdout_text (trace s') = stdout_text (trace s)
     \<and> stderr_calls (trace s') = stderr_calls (trace s)"
proof (induction w s tot rule: relay_stdin.induct)
  case (1 w s tot)
  obtain r s1 where rd: "read_stdin s BUFFER_LENGTH = (r, s1)" by force
  then have s1: "socket_pending s1 = socket_pending s"
    "stdout_text (trace s1) = stdout_text (trace s)"
    "stderr_calls (trace s1) = stderr_calls (trace s)"
    by (auto simp: read_stdin_def log_def split: prod.splits)
  show ?case
  proof (cases r)
    case RFail
    with "1.prems" rd s1 show ?thesis
      by (subst (asm) relay_stdin.simps) (auto split: if_splits)
  next
    case (RGot bs)
    obtain rc s2 where wr: "writeSocket w s1 bs = (rc, s2)" by force
    then have s2: "socket_pending s2 = socket_pending s1"
      "stdout_text (trace s2) = stdout_text (trace s1)"
      "stderr_calls (trace s2) = stderr_calls (trace s1)"
      by (auto simp: writeSocket_def log_def Let_def)
    from "1.prems" rd RGot wr have rc: "rc = 0"
      by (subst (asm) relay_stdin.simps) (auto split: if_splits)
    show ?thesis
    proof (cases "0 < length bs")
      case True
      with "1.prems" rd RGot wr rc
      have "relay_stdin w s2 (tot + length bs) = Inr s'"
        by (subst (asm) relay_stdin.simps) simp
      from "1.IH" [OF rd [symmetric] RGot wr [symmetric] _ True this] rc s1 s2
      show ?thesis by simp
    next
      case False
      with "1.prems" rd RGot wr rc have "s' = s2"
        by (subst (asm) relay_stdin.simps) simp
      with s1 s2 show ?thesis by simp
    qed
  qed
qed

lemma session_Return_0:
  assumes "session w s argv envp = (Return 0, s')"
  shows "\<exists>s6. receive_output w s6 = (0, s')
           \<and> socket_pending s6 = socket_pending s
           \<and> stdout_text (trace s6) = stdout_text (trace s)
           \<and> stderr_calls (trace s6) = stderr_calls (trace s)"
proof -
  from assms obtain s1 s2 vs s3 s4 s5 where
    1: "WRITE_STRING_OR_EXIT w s ''number of arguments''
          (snprintf_d MAXIMUM_NUMBER_LENGTH (int (length argv) - 1)) = Inr s1"
    and 2: "write_strings w s1 ''argument'' (drop 1 argv) = Inr s2"
    and 3: "WRITE_STRING_OR_EXIT w s2 ''number of environment variables''
          (snprintf_d MAXIMUM_NUMBER_LENGTH (int (length vs))) = Inr s3"
    and 4: "write_strings w s3 ''environment variable'' vs = Inr s4"
    and 5: "relay_stdin w s4 0 = Inr s5"
    and 6: "receive_output w (snd (writeSocket w s5 [NUL])) = (0, s')"
    unfolding session_def
    by (auto split: sum.splits prod.splits)
  have t: "stdout_text (map (\<lambda>x. EvWrite (cstring x) 0) xs) = []"
    "stderr_calls (map (\<lambda>x. EvWrite (cstring x) 0) xs) = []" for xs
    by (induction xs) auto
  have "socket_pending s4 = socket_pending s
     \<and> stdout_text (trace s4) = stdout_text (trace s)
     \<and> stderr_calls (trace s4) = stderr_calls (trace s)"
    unfolding write_strings_Inr [OF 4] WRITE_STRING_OR_EXIT_Inr [OF 3]
      write_strings_Inr [OF 2] WRITE_STRING_OR_EXIT_Inr [OF 1]
    by (simp add: t)
  with relay_stdin_Inr [OF 5]
  have "socket_pending (snd (writeSocket w s5 [NUL])) = socket_pending s
     \<and> stdout_text (trace (snd (writeSocket w s5 [NUL]))) = stdout_text (trace s)
     \<and> stderr_calls (trace (snd (writeSocket w s5 [NUL]))) = stderr_calls (trace s)"
    by (simp add: writeSocket_def Let_def log_def)
  with 6 show ?thesis by blast
qed

lemma main_Return_0:
  assumes "main w argv envp = (Return 0, s)"
  shows "\<exists>s2 s3. session w s2 argv envp = (Return 0, s3)
           \<and> socket_pending s2 = socket_script w
           \<and> stdout_text (trace s2) = [] \<and> stderr_calls (trace s2) = []
           \<and> s = terminateNetwork (closeSocket s3)"
  using assms
  apply (auto simp: main_def runTrampolineClient_def openSocket_def connectSocket_def log_def
      init_state_def Let_def fprintf_stderr_def printSocketError_def
      split: prod.splits outcome.splits if_splits option.splits)
  subgoal for sock s3 port
    by (rule exI [of _ "\<lparr>writes_done = 0, stdin_pending = stdin_script w,
          socket_pending = socket_script w,
          trace = [EvOpenSocket True, EvConnect (nat (atoi port mod 65536)) 0]\<rparr>"],
        rule exI [of _ s3]) simp
  done

lemma receive_output_whole:
  assumes "whole pieces1" and "concat pieces1 = frame (host_big_endian w) out"
    and "whole pieces2" and "concat pieces2 = frame (host_big_endian w) err"
    and "quiet rest"
    and "length out \<le> BUFFER_LENGTH" and "length err \<le> BUFFER_LENGTH"
    and "socket_pending s = map Data pieces1 @ map Data pieces2 @ rest"
  shows "\<exists>s'. receive_output w s = (0, s')
           \<and> stdout_text (trace s') = stdout_text (trace s) @ percent_s out
           \<and> stderr_calls (trace s') = stderr_calls (trace s) @ [EvStderr (percent_s err)]"
proof -
  from assms(3) obtain c cs where p2: "pieces2 = c # cs" and c: "c \<noteq> []"
    by (cases pieces2) (auto simp: whole_def)
  have q: "quiet (map Data pieces2 @ rest)" by (simp add: p2)
  have r0: "snd (read_input (map Data pieces2 @ rest) 0) = map Data pieces2 @ rest"
    using c by (simp add: p2)
  have lo: "length out < 65536" and le: "length err < 65536"
    using assms(6,7) by (simp_all add: BUFFER_LENGTH_def)
  from readDelimitedString_whole [OF assms(1,2,6) lo q assms(8)] r0
  obtain s1 where 1: "readDelimitedString w s BUFFER_LENGTH = ((int (length out), out), s1)"
    and s1: "socket_pending s1 = map Data pieces2 @ rest"
      "stdout_text (trace s1) = stdout_text (trace s)"
      "stderr_calls (trace s1) = stderr_calls (trace s)"
    by auto
  let ?s1 = "fprintf_stdout (percent_s out) s1"
  have "socket_pending ?s1 = map Data pieces2 @ rest"
    using s1 by (simp add: fprintf_stdout_def log_def)
  from readDelimitedString_whole [OF assms(3,4,7) le assms(5) this]
  obtain s2 where 2: "readDelimitedString w ?s1 BUFFER_LENGTH = ((int (length err), err), s2)"
    and s2: "stdout_text (trace s2) = stdout_text (trace ?s1)"
      "stderr_calls (trace s2) = stderr_calls (trace ?s1)"
    by auto
  show ?thesis
    using 1 2 s1 s2
    by (simp add: receive_output_def fprintf_stdout_def fprintf_stderr_def log_def)
qed

subsection \<open>The order of the steps\<close>

lemma receiving_refl: "receiving s s"
  by (simp add: receiving_def)

lemma receiving_trans: "receiving s s1 \<Longrightarrow> receiving s1 s2 \<Longrightarrow> receiving s s2"
  by (auto simp: receiving_def)

lemma receiving_log: "receive_event e \<Longrightarrow> receiving s (log e s)"
  by (simp add: receiving_def log_def)

lemma receiving_readSocket: "receiving s (snd (readSocket s n))"
  by (auto simp: receiving_def readSocket_def log_def split: prod.splits)

lemma receiving_read_payload: "receiving s (snd (read_payload s n buf))"
proof (induction s n buf rule: read_payload.induct)
  case (1 s n buf)
  obtain r s1 where rd: "readSocket s (n - length buf) = (r, s1)" by force
  then have s1: "receiving s s1" using receiving_readSocket [of s "n - length buf"] by simp
  show ?case
  proof (cases r)
    case RFail
    have "receiving s1 (printSocketError ''ERROR: Error reading from socket'' s1)"
      unfolding printSocketError_def by (rule receiving_log) simp
    with rd RFail s1 show ?thesis
      by (subst read_payload.simps) (auto intro: receiving_trans)
  next
    case (RGot bs)
    show ?thesis
    proof (cases "0 < length bs")
      case True
      from "1.IH" [OF rd [symmetric] RGot True] rd RGot True s1 show ?thesis
        by (subst read_payload.simps) (auto intro: receiving_trans)
    next
      case False
      with rd RGot s1 show ?thesis
        by (subst read_payload.simps) simp
    qed
  qed
qed

lemma receiving_readDelimitedString: "receiving s (snd (readDelimitedString w s n))"
proof -
  obtain r s1 where rd: "readSocket s 2 = (r, s1)" by force
  then have "receiving s s1" using receiving_readSocket [of s 2] by simp
  then obtain evs1 where s1: "trace s1 = trace s @ evs1" "list_all receive_event evs1"
    by (auto simp: receiving_def)
  have "receiving s1 (snd (read_payload s1 k []))" for k
    by (rule receiving_read_payload)
  then obtain evs2 where
    p: "\<And>k. trace (snd (read_payload s1 k [])) = trace s1 @ evs2 k"
       "\<And>k. list_all receive_event (evs2 k)"
    unfolding receiving_def by metis
  show ?thesis
    using rd s1 p [of "uint16_of (host_big_endian w) (case r of RGot pre \<Rightarrow> pre | RFail \<Rightarrow> [])"]
    by (auto simp: readDelimitedString_def receiving_def Let_def printSocketError_def
        fprintf_stderr_def log_def split: rres.splits prod.splits option.splits)
qed

lemma receiving_receive_output: "receiving s (snd (receive_output w s))"
proof -
  obtain r1 b1 s1 where 1: "readDelimitedString w s BUFFER_LENGTH = ((r1, b1), s1)"
    by (metis surj_pair)
  obtain r2 b2 s2 where 2: "readDelimitedString w (fprintf_stdout (percent_s b1) s1) BUFFER_LENGTH = ((r2, b2), s2)"
    by (metis surj_pair)
  from receiving_readDelimitedString [of s w BUFFER_LENGTH] 1
  obtain evs1 where a: "trace s1 = trace s @ evs1" "list_all receive_event evs1"
    by (auto simp: receiving_def)
  from receiving_readDelimitedString [of "fprintf_stdout (percent_s b1) s1" w BUFFER_LENGTH] 2
  obtain evs2 where b: "trace s2 = trace (fprintf_stdout (percent_s b1) s1) @ evs2"
    "list_all receive_event evs2"
    by (auto simp: receiving_def)
  show ?thesis
    using 1 2 a b
    by (auto simp: receive_output_def receiving_def fprintf_stdout_def fprintf_stderr_def log_def)
qed

text \<open>Standard input gives some chunks and then its end.\<close>

lemma relay_stdin_eof:
  assumes "\<forall>c \<in> set chunks. c \<noteq> [] \<and> length c \<le> BUFFER_LENGTH"
    and "\<forall>k \<le> length chunks. write_rc w (writes_done s + k) = 0"
    and "stdin_pending s = map Data chunks"
  shows "relay_stdin w s tot =
     Inr (s\<lparr>writes_done := Suc (writes_done s + length chunks), stdin_pending := [],
            trace := trace s
              @ concat (map (\<lambda>c. [EvReadStdin BUFFER_LENGTH (RGot c), EvWrite c 0]) chunks)
              @ [EvReadStdin BUFFER_LENGTH (RGot []), EvWrite [] 0]\<rparr>)"
  using assms
proof (induction chunks arbitrary: s tot)
  case Nil
  then show ?case
    by (subst relay_stdin.simps) (simp add: read_stdin_def writeSocket_def Let_def log_def)
next
  case (Cons c cs)
  let ?s1 = "log (EvReadStdin BUFFER_LENGTH (RGot c)) (s\<lparr>stdin_pending := map Data cs\<rparr>)"
  let ?s2 = "log (EvWrite c 0) (?s1\<lparr>writes_done := Suc (writes_done ?s1)\<rparr>)"
  have c: "c \<noteq> []" "length c \<le> BUFFER_LENGTH" using Cons.prems(1) by auto
  have rd: "read_stdin s BUFFER_LENGTH = (RGot c, ?s1)"
    using Cons.prems(3) c by (simp add: read_stdin_def)
  have "write_rc w (writes_done s) = 0" using Cons.prems(2) by force
  then have wr: "writeSocket w ?s1 c = (0, ?s2)"
    by (simp add: writeSocket_def Let_def log_def)
  have step: "relay_stdin w s tot = relay_stdin w ?s2 (tot + length c)"
    using rd wr c by (subst relay_stdin.simps) simp
  have "\<forall>k \<le> length cs. write_rc w (writes_done ?s2 + k) = 0"
    using Cons.prems(2) by (force simp: log_def)
  from Cons.IH [OF _ this, of "tot + length c"] Cons.prems(1)
  show ?case unfolding step by (simp add: log_def)
qed

text \<open>
  The order of a session on which no send fails before the terminator: the strings, the
  chunks of standard input as they are read, the terminator byte, and from then on only
  receiving and printing. The terminator's own result \<open>rc\<close> plays no part.
\<close>

lemma session_order:
  assumes "collect_env envp [] = Inr vs"
    and "\<forall>c \<in> set chunks. c \<noteq> [] \<and> length c \<le> BUFFER_LENGTH"
    and "\<forall>k \<le> length (header argv vs) + length chunks. write_rc w (writes_done s + k) = 0"
    and "stdin_pending s = map Data chunks"
  shows "\<exists>rc evs.
     trace (snd (session w s argv envp)) =
       trace s @ map (\<lambda>x. EvWrite (cstring x) 0) (header argv vs)
         @ concat (map (\<lambda>c. [EvReadStdin BUFFER_LENGTH (RGot c), EvWrite c 0]) chunks)
         @ [EvReadStdin BUFFER_LENGTH (RGot []), EvWrite [] 0, EvWrite [NUL] rc] @ evs
     \<and> list_all receive_event evs"
proof -
  let ?s4 = "s\<lparr>writes_done := writes_done s + length (header argv vs),
                 trace := trace s @ map (\<lambda>x. EvWrite (cstring x) 0) (header argv vs)\<rparr>"
  have "\<forall>k < length (header argv vs). write_rc w (writes_done s + k) = 0"
    using assms(3) by simp
  note se = session_after_header [OF assms(1) this]
  have "\<forall>k \<le> length chunks. write_rc w (writes_done ?s4 + k) = 0"
    using assms(3) by (simp add: add.assoc)
  moreover have "stdin_pending ?s4 = map Data chunks" using assms(4) by simp
  ultimately have "relay_stdin w ?s4 0 =
     Inr (?s4\<lparr>writes_done := Suc (writes_done ?s4 + length chunks), stdin_pending := [],
            trace := trace ?s4
              @ concat (map (\<lambda>c. [EvReadStdin BUFFER_LENGTH (RGot c), EvWrite c 0]) chunks)
              @ [EvReadStdin BUFFER_LENGTH (RGot []), EvWrite [] 0]\<rparr>)"
    by (rule relay_stdin_eof [OF assms(2)])
  then obtain s5 where re: "relay_stdin w ?s4 0 = Inr s5"
    and s5: "trace s5 = trace s @ map (\<lambda>x. EvWrite (cstring x) 0) (header argv vs)
         @ concat (map (\<lambda>c. [EvReadStdin BUFFER_LENGTH (RGot c), EvWrite c 0]) chunks)
         @ [EvReadStdin BUFFER_LENGTH (RGot []), EvWrite [] 0]"
    by simp
  obtain rc s6 where wr: "writeSocket w s5 [NUL] = (rc, s6)"
    by force
  from receiving_receive_output [of s6 w]
  obtain evs where ev: "trace (snd (receive_output w s6)) = trace s6 @ evs"
    "list_all receive_event evs"
    by (auto simp: receiving_def)
  have "trace s6 = trace s5 @ [EvWrite [NUL] rc]"
    using wr by (auto simp: writeSocket_def Let_def log_def)
  with ev s5 show ?thesis
    unfolding se re by (simp add: wr split_beta)
qed

section \<open>Start-up\<close>

text \<open>
  Claim C3, as amended. When \<open>DESKTOP_PORT\<close> is not in the environment the process
  returns 1, and it has opened no socket and sent nothing: all it did was print the error
  message (and shut the network layer down, when that had come up).
\<close>

theorem missing_port_is_fatal:
  assumes "getenv ''DESKTOP_PORT'' envp = None"
  shows "fst (main w argv envp) = Return 1
       \<and> trace (snd (main w argv envp)) =
           (if network_rc w \<noteq> 0 then []
            else [EvStderr (''ERROR: Missing DESKTOP_PORT environment variable'' @ [CHR 0x0A]),
                  EvTerminateNetwork])"
  using assms
  by (simp add: main_def runTrampolineClient_def init_state_def fprintf_stderr_def log_def
      terminateNetwork_def)

theorem missing_port_is_fatal_witness:
  "getenv ''DESKTOP_PORT'' [''HOME=/root'', ''DESKTOP_USERNAME=alice''] = None
   \<and> fst (main (server_world False [] []) [''git'', ''status''] [''HOME=/root'', ''DESKTOP_USERNAME=alice'']) = Return 1
   \<and> trace (snd (main (server_world False [] []) [''git'', ''status''] [''HOME=/root'', ''DESKTOP_USERNAME=alice''])) =
       [EvStderr (''ERROR: Missing DESKTOP_PORT environment variable'' @ [CHR 0x0A]), EvTerminateNetwork]"
  using missing_port_is_fatal [of "[''HOME=/root'', ''DESKTOP_USERNAME=alice'']"
      "server_world False [] []" "[''git'', ''status'']"]
  by (simp add: server_world_def)

text \<open>
  Claim C3 as stated fails for a value that is present but not a number: \<open>atoi\<close>
  reads \<open>"abc"\<close> as 0, and the client opens a socket and tries to connect to port 0; it
  reads \<open>"12abc"\<close> as 12, and with a server on that port the session runs to its end and
  returns 0.
\<close>

theorem unparseable_port_counterexample:
  "getenv ''DESKTOP_PORT'' [''DESKTOP_PORT=abc''] = Some ''abc''
   \<and> atoi ''abc'' = 0
   \<and> fst (main ((server_world False [] [])\<lparr>connect_rc := - 1\<rparr>) [''git''] [''DESKTOP_PORT=abc'']) = Return 1
   \<and> trace (snd (main ((server_world False [] [])\<lparr>connect_rc := - 1\<rparr>) [''git''] [''DESKTOP_PORT=abc''])) =
       [EvOpenSocket True, EvConnect 0 (- 1),
        EvSocketError ''ERROR: Couldn't connect to 127.0.0.1:0'', EvClose, EvTerminateNetwork]
   \<and> atoi ''12abc'' = 12
   \<and> fst (main (server_world False [Failure] [Data (frame False []), Data (frame False [])])
        [''git''] [''DESKTOP_PORT=12abc'']) = Return 0
   \<and> writes_of (trace (snd (main (server_world False [Failure] [Data (frame False []), Data (frame False [])])
        [''git''] [''DESKTOP_PORT=12abc'']))) = [''0'' @ [NUL], ''0'' @ [NUL], [NUL]]"
  by (simp add: eval_defs)

section \<open>The stdin relay\<close>

text \<open>
  Claim C6. On a connected session whose strings were all sent, let standard input give
  some chunks (each a non-empty read of at most \<open>BUFFER_LENGTH\<close> bytes, each forwarded)
  and then a failing read. With no chunk before the failure, the client goes on: the
  writes of the whole run are the strings and then the terminator byte alone. With at least
  one chunk, the run returns 1, the only message on standard error is the stdin read
  error, and the writes are the strings and the chunks: no terminator byte is written.
\<close>

theorem stdin_read_error:
  assumes "network_rc w = 0" and "getenv ''DESKTOP_PORT'' envp = Some port"
    and "socket_ok w" and "connect_rc w = 0"
    and "collect_env envp [] = Inr vs"
    and "\<forall>k < length (header argv vs) + length chunks. write_rc w k = 0"
    and "\<forall>c \<in> set chunks. c \<noteq> [] \<and> length c \<le> BUFFER_LENGTH"
    and "stdin_script w = map Data chunks @ Failure # rest"
  shows "(chunks = [] \<longrightarrow>
            writes_of (trace (snd (main w argv envp))) = map cstring (header argv vs) @ [[NUL]])
       \<and> (chunks \<noteq> [] \<longrightarrow>
            fst (main w argv envp) = Return 1
            \<and> writes_of (trace (snd (main w argv envp))) = map cstring (header argv vs) @ chunks
            \<and> stderr_calls (trace (snd (main w argv envp)))
                = [EvStderr ''ERROR: Error reading stdin data''])"
proof -
  let ?s2 = "(init_state w)\<lparr>trace := [EvOpenSocket True, EvConnect (nat (atoi port mod 65536)) 0]\<rparr>"
  let ?s4 = "?s2\<lparr>writes_done := writes_done ?s2 + length (header argv vs),
                  trace := trace ?s2 @ map (\<lambda>x. EvWrite (cstring x) 0) (header argv vs)\<rparr>"
  have m: "main w argv envp =
     (case session w ?s2 argv envp of
        (Undefined f, s) \<Rightarrow> (Undefined f, s)
      | (Return r, s) \<Rightarrow> (Return r, terminateNetwork (closeSocket s)))"
    by (rule main_connected [OF assms(1-4)])
  have "\<forall>k < length (header argv vs). write_rc w (writes_done ?s2 + k) = 0"
    using assms(6) by (simp add: init_state_def)
  note se = session_after_header [OF assms(5) this]
  have "\<forall>k < length chunks. write_rc w (writes_done ?s4 + k) = 0"
    using assms(6) by (simp add: init_state_def)
  note re = relay_stdin_read_error [OF assms(7) this, of rest 0]
  have pend: "stdin_pending ?s4 = map Data chunks @ Failure # rest"
    using assms(8) by (simp add: init_state_def)
  have wr: "writes_of (map (\<lambda>x. EvWrite (cstring x) 0) xs) = map cstring xs" for xs
    by (induction xs) auto
  have wc: "writes_of (concat (map (\<lambda>c. [EvReadStdin BUFFER_LENGTH (RGot c), EvWrite c 0]) cs)) = cs" for cs
    by (induction cs) auto
  have sw: "stderr_calls (map (\<lambda>x. EvWrite (cstring x) 0) xs) = []" for xs
    by (induction xs) auto
  have sc: "stderr_calls (concat (map (\<lambda>c. [EvReadStdin BUFFER_LENGTH (RGot c), EvWrite c 0]) cs)) = []" for cs
    by (induction cs) auto
  show ?thesis
  proof (intro conjI impI)
    assume "chunks = []"
    then show "writes_of (trace (snd (main w argv envp))) = map cstring (header argv vs) @ [[NUL]]"
      unfolding m se re [OF pend]
      by (simp add: Let_def writeSocket_def log_def receive_output_writes wr
          terminateNetwork_def closeSocket_def split_beta)
  next
    assume "chunks \<noteq> []"
    then show "fst (main w argv envp) = Return 1"
      unfolding m se re [OF pend] by (simp add: Let_def)
  next
    assume "chunks \<noteq> []"
    then show "writes_of (trace (snd (main w argv envp))) = map cstring (header argv vs) @ chunks"
      unfolding m se re [OF pend]
      by (simp add: Let_def fprintf_stderr_def log_def wr wc terminateNetwork_def closeSocket_def)
  next
    assume "chunks \<noteq> []"
    then show "stderr_calls (trace (snd (main w argv envp))) = [EvStderr ''ERROR: Error reading stdin data'']"
      unfolding m se re [OF pend]
      by (simp add: Let_def fprintf_stderr_def log_def terminateNetwork_def closeSocket_def sw sc)
  qed
qed

theorem stdin_read_error_witness:
  "writes_of (trace (snd (main (server_world False [Failure] []) [''git'', ''fetch'']
        [''DESKTOP_PORT=4000'']))) = [''1'' @ [NUL], ''fetch'' @ [NUL], ''0'' @ [NUL], [NUL]]
   \<and> fst (main (server_world False [Data ''secret'', Failure] []) [''git'', ''fetch'']
        [''DESKTOP_PORT=4000'']) = Return 1
   \<and> writes_of (trace (snd (main (server_world False [Data ''secret'', Failure] []) [''git'', ''fetch'']
        [''DESKTOP_PORT=4000'']))) = [''1'' @ [NUL], ''fetch'' @ [NUL], ''0'' @ [NUL], ''secret'']
   \<and> stderr_calls (trace (snd (main (server_world False [Data ''secret'', Failure] []) [''git'', ''fetch'']
        [''DESKTOP_PORT=4000'']))) = [EvStderr ''ERROR: Error reading stdin data'']"
proof -
  have h: "header [''git'', ''fetch''] [] = [''1'', ''fetch'', ''0'']"
    by (simp add: header_def snprintf_d_def itoa_def digits.simps MAXIMUM_NUMBER_LENGTH_def)
  have g: "getenv ''DESKTOP_PORT'' [''DESKTOP_PORT=4000''] = Some ''4000''" by simp
  have c: "collect_env [''DESKTOP_PORT=4000''] [] = Inr []"
    by (simp add: isValidEnvVar_def sValidEnvVars_def strlen_def)
  let ?wa = "server_world False [Failure] []"
  let ?wb = "server_world False [Data ''secret'', Failure] []"
  have a: "network_rc ?wa = 0" "socket_ok ?wa" "connect_rc ?wa = 0"
    and b: "network_rc ?wb = 0" "socket_ok ?wb" "connect_rc ?wb = 0"
    by (simp_all add: server_world_def)
  have wa: "\<forall>k < length (header [''git'', ''fetch''] []) + length ([] :: string list). write_rc ?wa k = 0"
    and wb: "\<forall>k < length (header [''git'', ''fetch''] []) + length [''secret'']. write_rc ?wb k = 0"
    by (simp_all add: server_world_def)
  have ca: "\<forall>c \<in> set ([] :: string list). c \<noteq> [] \<and> length c \<le> BUFFER_LENGTH"
    and cb: "\<forall>c \<in> set [''secret'']. c \<noteq> [] \<and> length c \<le> BUFFER_LENGTH"
    by (simp_all add: BUFFER_LENGTH_def)
  have sa: "stdin_script ?wa = map Data [] @ Failure # []"
    and sb: "stdin_script ?wb = map Data [''secret''] @ Failure # []"
    by (simp_all add: server_world_def)
  from stdin_read_error [OF a(1) g a(2,3) c wa ca sa]
    stdin_read_error [OF b(1) g b(2,3) c wb cb sb]
  show ?thesis by (simp add: h cstring_def)
qed

text \<open>
  Claim C5 fails on the code: the result of the terminator's \<open>writeSocket\<close> is not
  looked at. Here the third write, which is the terminator's, fails; the client still
  reads both replies and returns 0.
\<close>

theorem terminator_failure_ignored:
  "fst (main ((server_world False [Failure] [Data (frame False []), Data (frame False [])])
               \<lparr>write_rc := (\<lambda>k. if k = 2 then - 1 else 0)\<rparr>)
        [''git''] [''DESKTOP_PORT=4000'']) = Return 0
   \<and> writes_of (trace (snd (main ((server_world False [Failure] [Data (frame False []), Data (frame False [])])
               \<lparr>write_rc := (\<lambda>k. if k = 2 then - 1 else 0)\<rparr>)
        [''git''] [''DESKTOP_PORT=4000'']))) = [''0'' @ [NUL], ''0'' @ [NUL], [NUL]]
   \<and> EvWrite [NUL] (- 1) \<in> set (trace (snd (main ((server_world False [Failure] [Data (frame False []), Data (frame False [])])
               \<lparr>write_rc := (\<lambda>k. if k = 2 then - 1 else 0)\<rparr>)
        [''git''] [''DESKTOP_PORT=4000''])))"
  by (simp add: eval_defs)

text \<open>
  Claim C1 fails on the code at the same place: after the failed write of the terminator
  the later steps (both receives) are still performed. The trace of such a run, in full:
\<close>

theorem receive_after_failed_terminator:
  "trace (snd (main ((server_world False [Failure]
                 [Data (frame False (''clean'' @ [CHR 0x0A])), Data (frame False [])])
               \<lparr>write_rc := (\<lambda>k. if k = 5 then - 1 else 0)\<rparr>)
        [''git'', ''status'', ''--porcelain'']
        [''DESKTOP_PORT=4000'', ''DESKTOP_USERNAME=alice''])) =
     [EvOpenSocket True, EvConnect 4000 0,
      EvWrite (''2'' @ [NUL]) 0, EvWrite (''status'' @ [NUL]) 0,
      EvWrite (''--porcelain'' @ [NUL]) 0,
      EvWrite (''1'' @ [NUL]) 0, EvWrite (''DESKTOP_USERNAME=alice'' @ [NUL]) 0,
      EvReadStdin 4096 RFail,
      EvWrite [NUL] (- 1),
      EvRecv 2 (RGot [CHR 0x06, CHR 0x00]), EvRecv 6 (RGot (''clean'' @ [CHR 0x0A])),
      EvRecv 0 (RGot []), EvStdout (''clean'' @ [CHR 0x0A]),
      EvRecv 2 (RGot [CHR 0x00, CHR 0x00]), EvRecv 0 (RGot []), EvStderr [],
      EvClose, EvTerminateNetwork]
   \<and> fst (main ((server_world False [Failure]
                 [Data (frame False (''clean'' @ [CHR 0x0A])), Data (frame False [])])
               \<lparr>write_rc := (\<lambda>k. if k = 5 then - 1 else 0)\<rparr>)
        [''git'', ''status'', ''--porcelain'']
        [''DESKTOP_PORT=4000'', ''DESKTOP_USERNAME=alice'']) = Return 0"
  by (simp add: eval_defs)

section \<open>The replies\<close>

text \<open>
  Claim C9, as amended. In a session that returns 0 and whose two replies arrive whole,
  with payloads that fit the buffer, standard output receives the first payload up to its
  first zero byte (all of it when it holds none), and standard error receives, in one
  call and as the only thing written there, the second payload up to its first zero byte.
\<close>

theorem replies_printed:
  assumes "main w argv envp = (Return 0, s)"
    and "socket_script w = map Data pieces1 @ map Data pieces2 @ rest"
    and "whole pieces1" and "concat pieces1 = frame (host_big_endian w) out"
    and "whole pieces2" and "concat pieces2 = frame (host_big_endian w) err"
    and "quiet rest"
    and "length out \<le> BUFFER_LENGTH" and "length err \<le> BUFFER_LENGTH"
  shows "stdout_text (trace s) = percent_s out
       \<and> stderr_calls (trace s) = [EvStderr (percent_s err)]"
proof -
  from main_Return_0 [OF assms(1)] obtain s2 s3 where
    se: "session w s2 argv envp = (Return 0, s3)"
    and s2: "socket_pending s2 = socket_script w" "stdout_text (trace s2) = []"
      "stderr_calls (trace s2) = []"
    and s: "s = terminateNetwork (closeSocket s3)"
    by blast
  from session_Return_0 [OF se] obtain s6 where
    rc: "receive_output w s6 = (0, s3)"
    and s6: "socket_pending s6 = socket_pending s2"
      "stdout_text (trace s6) = stdout_text (trace s2)"
      "stderr_calls (trace s6) = stderr_calls (trace s2)"
    by blast
  have "socket_pending s6 = map Data pieces1 @ map Data pieces2 @ rest"
    using s6 s2 assms(2) by simp
  from receive_output_whole [OF assms(3-9) this] rc s6 s2
  have "stdout_text (trace s3) = percent_s out"
    "stderr_calls (trace s3) = [EvStderr (percent_s err)]"
    by auto
  then show ?thesis
    by (simp add: s terminateNetwork_def closeSocket_def log_def)
qed

theorem replies_printed_witness:
  "fst (main (server_world False [Failure]
          [Data (frame False (''clean'' @ [CHR 0x0A])), Data (frame False [])])
        [''git'', ''status'', ''--porcelain'']
        [''DESKTOP_PORT=4000'', ''DESKTOP_USERNAME=alice'']) = Return 0
   \<and> stdout_text (trace (snd (main (server_world False [Failure]
          [Data (frame False (''clean'' @ [CHR 0x0A])), Data (frame False [])])
        [''git'', ''status'', ''--porcelain'']
        [''DESKTOP_PORT=4000'', ''DESKTOP_USERNAME=alice'']))) = ''clean'' @ [CHR 0x0A]
   \<and> stderr_calls (trace (snd (main (server_world False [Failure]
          [Data (frame False (''clean'' @ [CHR 0x0A])), Data (frame False [])])
        [''git'', ''status'', ''--porcelain'']
        [''DESKTOP_PORT=4000'', ''DESKTOP_USERNAME=alice'']))) = [EvStderr []]"
proof -
  let ?w = "server_world False [Failure]
          [Data (frame False (''clean'' @ [CHR 0x0A])), Data (frame False [])]"
  let ?m = "main ?w [''git'', ''status'', ''--porcelain'']
        [''DESKTOP_PORT=4000'', ''DESKTOP_USERNAME=alice'']"
  have 1: "fst ?m = Return 0" by (simp add: eval_defs)
  then have m: "?m = (Return 0, snd ?m)" by (metis prod.collapse)
  have 2: "socket_script ?w =
      map Data [frame False (''clean'' @ [CHR 0x0A])] @ map Data [frame False []] @ []"
    by (simp add: server_world_def)
  have 3: "whole [frame False (''clean'' @ [CHR 0x0A])]" "whole [frame False []]"
    by (simp_all add: whole_def frame_def uint16_bytes_def)
  have 4: "concat [frame False (''clean'' @ [CHR 0x0A])] = frame (host_big_endian ?w) (''clean'' @ [CHR 0x0A])"
    "concat [frame False []] = frame (host_big_endian ?w) []"
    by (simp_all add: server_world_def)
  have 5: "quiet []" "length (''clean'' @ [CHR 0x0A]) \<le> BUFFER_LENGTH"
    "length ([] :: string) \<le> BUFFER_LENGTH"
    by (simp_all add: BUFFER_LENGTH_def)
  from replies_printed [OF m 2 3(1) 4(1) 3(2) 4(2) 5] 1
  show ?thesis by (simp add: percent_s_def NUL_def)
qed

text \<open>
  Claim C9 as stated fails for a payload that holds a zero byte: \<open>"%s"\<close> stops there.
  Of the payload \<open>a\<close>, \<open>0x00\<close>, \<open>b\<close> only \<open>a\<close> reaches standard output.
\<close>

theorem reply_with_zero_byte_counterexample:
  "fst (main (server_world False [Failure]
          [Data (frame False [CHR ''a'', NUL, CHR ''b'']), Data (frame False [])])
        [''git''] [''DESKTOP_PORT=4000'']) = Return 0
   \<and> stdout_text (trace (snd (main (server_world False [Failure]
          [Data (frame False [CHR ''a'', NUL, CHR ''b'']), Data (frame False [])])
        [''git''] [''DESKTOP_PORT=4000'']))) = ''a''"
  by (simp add: eval_defs)

section \<open>Closing the socket\<close>

text \<open>
  Claim C7. Whenever \<open>main\<close> returns and a socket was opened during the run, the run
  ends with \<open>closeSocket\<close> followed by \<open>terminateNetwork\<close>, whatever the returned value
  and whichever step failed.
\<close>

theorem socket_closed_on_exit:
  assumes "main w argv envp = (Return result, s)" and "EvOpenSocket True \<in> set (trace s)"
  shows "\<exists>before. trace s = before @ [EvClose, EvTerminateNetwork]"
  using assms
  by (auto simp: main_def runTrampolineClient_def openSocket_def connectSocket_def log_def
      init_state_def Let_def fprintf_stderr_def printSocketError_def terminateNetwork_def
      closeSocket_def
      split: prod.splits outcome.splits if_splits option.splits)

theorem socket_closed_on_exit_witness:
  "fst (main ((server_world False [] [])\<lparr>connect_rc := - 1\<rparr>) [''git''] [''DESKTOP_PORT=4000'']) = Return 1
   \<and> EvOpenSocket True \<in> set (trace (snd (main ((server_world False [] [])\<lparr>connect_rc := - 1\<rparr>) [''git''] [''DESKTOP_PORT=4000''])))
   \<and> (\<exists>before. trace (snd (main ((server_world False [] [])\<lparr>connect_rc := - 1\<rparr>) [''git''] [''DESKTOP_PORT=4000''])) =
         before @ [EvClose, EvTerminateNetwork])"
proof -
  let ?m = "main ((server_world False [] [])\<lparr>connect_rc := - 1\<rparr>) [''git''] [''DESKTOP_PORT=4000'']"
  have 1: "fst ?m = Return 1" by (simp add: eval_defs)
  have 2: "EvOpenSocket True \<in> set (trace (snd ?m))" by (simp add: eval_defs)
  have "?m = (Return 1, snd ?m)" using 1 by (metis prod.collapse)
  from socket_closed_on_exit [OF this 2] 1 2 show ?thesis by blast
qed

end
